theory Spec2Isabelle
  imports Complex_Main
begin

section \<open>The DHT11 sensor logger (rpi0w-bookworm-dht11.py)\<close>

text \<open>
  A shallow embedding of the class \<open>DHT11SensorLogger\<close> and of its polling loop
  \<open>run\<close>.  The program talks to three things it does not own: the sensor driver
  (\<open>adafruit_dht\<close>), the file system and the clock.  Each call into one of them is
  given its outcome by the environment, so that every exception the source catches,
  and every one it lets through, is a branch of the model.

  Python floats are idealised as exact rationals: \<open>round(x, 1)\<close> rounds the exact
  value half to even, and sums and quotients are exact.  The values the driver hands
  over are taken to be floats (a driver that hands over an \<open>int\<close> has it written
  without the fractional digit; it parses back to the same number).
\<close>

subsection \<open>Exceptions\<close>

text \<open>
  The classes the \<open>except\<close> clauses of the source tell apart.  \<open>KeyboardInterrupt\<close>
  and \<open>SystemExit\<close> derive from \<open>BaseException\<close> only, so \<open>except Exception\<close> lets
  them through; every other constructor is a subclass of \<open>Exception\<close>.
\<close>

datatype exn =
    RuntimeError
  | OSError
  | ValueError
  | KeyError
  | TypeError
  | AttributeError
  | OtherException
  | KeyboardInterrupt
  | SystemExit int

fun is_Exception :: "exn \<Rightarrow> bool" where
  "is_Exception KeyboardInterrupt = False"
| "is_Exception (SystemExit code) = False"
| "is_Exception _ = True"

subsection \<open>Numbers and their text\<close>

text \<open>\<open>round(x, 1)\<close>: the nearest multiple of one tenth, ties to the even one.\<close>

definition round_half_even :: "rat \<Rightarrow> int" where
  "round_half_even y =
     (let f = \<lfloor>y\<rfloor>; d = y - of_int f
      in if d < 1 / 2 then f
         else if 1 / 2 < d then f + 1
         else if even f then f else f + 1)"

definition py_round1 :: "rat \<Rightarrow> rat" where
  "py_round1 x = of_int (round_half_even (x * 10)) / 10"

definition digit_char :: "nat \<Rightarrow> char" where
  "digit_char d = char_of (48 + d)"

definition digit_val :: "char \<Rightarrow> nat option" where
  "digit_val c =
     (let n = (of_char c :: nat) in if 48 \<le> n \<and> n \<le> 57 then Some (n - 48) else None)"

text \<open>\<open>str(n)\<close> of a natural number: its decimal digits.\<close>

fun str_nat :: "nat \<Rightarrow> string" where
  "str_nat n = (if n < 10 then [digit_char n] else str_nat (n div 10) @ [digit_char (n mod 10)])"

declare str_nat.simps [simp del]

fun digits_val :: "nat \<Rightarrow> string \<Rightarrow> nat option" where
  "digits_val acc [] = Some acc"
| "digits_val acc (c # cs) =
     (case digit_val c of None \<Rightarrow> None | Some d \<Rightarrow> digits_val (acc * 10 + d) cs)"

text \<open>
  \<open>str(x)\<close> of a float, as \<open>csv.writer\<close> applies it to a field that is not a string.
  The floats the logger writes are results of \<open>round(_, 1)\<close>, multiples of one tenth,
  and for those the shortest representation Python prints is the integer part, a
  point and one digit.  (From \<open>1e16\<close> on Python prints an exponent; that form is not
  modelled, it parses back to the same float as well.)
\<close>

definition float_str :: "rat \<Rightarrow> string" where
  "float_str x =
     (let t = nat \<lfloor>\<bar>x\<bar> * 10\<rfloor>
      in (if x < 0 then ''-'' else []) @ str_nat (t div 10) @ ''.'' @ str_nat (t mod 10))"

text \<open>
  \<open>float(s)\<close> on decimal text: an optional sign, digits, an optional point and
  digits, at least one digit in all; anything else raises \<open>ValueError\<close>.  (Exponents,
  \<open>inf\<close>, \<open>nan\<close>, underscores and surrounding blanks, which \<open>float\<close> accepts too, are
  not modelled: the logger never writes them.)
\<close>

definition py_float :: "string \<Rightarrow> exn + rat" where
  "py_float s =
     (let neg = (take 1 s = ''-'');
          body = (if take 1 s = ''-'' \<or> take 1 s = ''+'' then drop 1 s else s);
          ip = takeWhile (\<lambda>c. c \<noteq> CHR ''.'') body;
          fp = drop 1 (dropWhile (\<lambda>c. c \<noteq> CHR ''.'') body)
      in if ip = [] \<and> fp = [] then Inl ValueError
         else (case digits_val 0 ip of
                 None \<Rightarrow> Inl ValueError
               | Some i \<Rightarrow>
                  (case digits_val 0 fp of
                     None \<Rightarrow> Inl ValueError
                   | Some f \<Rightarrow>
                      Inr ((if neg then - 1 else 1) * (of_nat i + of_nat f / 10 ^ length fp)))))"

subsection \<open>Timestamps\<close>

text \<open>
  \<open>datetime.now().isoformat()\<close>: \<open>YYYY-MM-DDTHH:MM:SS.ffffff\<close>, the fraction left out
  when the microsecond is 0.
\<close>

record datetime =
  year :: nat
  month :: nat
  day :: nat
  hour :: nat
  minute :: nat
  second :: nat
  microsecond :: nat

definition zpad :: "nat \<Rightarrow> nat \<Rightarrow> string" where
  "zpad w n = replicate (w - length (str_nat n)) (CHR ''0'') @ str_nat n"

definition isoformat :: "datetime \<Rightarrow> string" where
  "isoformat dt =
     zpad 4 (year dt) @ ''-'' @ zpad 2 (month dt) @ ''-'' @ zpad 2 (day dt) @ ''T'' @
     zpad 2 (hour dt) @ '':'' @ zpad 2 (minute dt) @ '':'' @ zpad 2 (second dt) @
     (if microsecond dt = 0 then [] else ''.'' @ zpad 6 (microsecond dt))"

subsection \<open>The csv module\<close>

text \<open>
  \<open>csv.writer\<close> with the default dialect: fields joined by commas, a field quoted
  only when it holds a comma, a quote or a line break (a quote inside is doubled),
  and every row ended by carriage return and line feed.
\<close>

definition csv_special :: "char \<Rightarrow> bool" where
  "csv_special c = (c = CHR '','' \<or> c = CHR 0x22 \<or> c = CHR 0x0D \<or> c = CHR 0x0A)"

definition csv_field :: "string \<Rightarrow> string" where
  "csv_field f =
     (if list_ex csv_special f
      then [CHR 0x22] @ concat (map (\<lambda>c. if c = CHR 0x22 then [c, c] else [c]) f) @ [CHR 0x22]
      else f)"

fun join_comma :: "string list \<Rightarrow> string" where
  "join_comma [] = []"
| "join_comma [f] = f"
| "join_comma (f # g # fs) = f @ '','' @ join_comma (g # fs)"

definition csv_writerow :: "string list \<Rightarrow> string" where
  "csv_writerow flds = join_comma (map csv_field flds) @ [CHR 0x0D, CHR 0x0A]"

text \<open>
  Reading a file opened in text mode: \<open>open(path, 'r')\<close> turns every line ending
  into a single line feed.
\<close>

fun universal_newlines :: "string \<Rightarrow> string" where
  "universal_newlines [] = []"
| "universal_newlines [c] = (if c = CHR 0x0D then [CHR 0x0A] else [c])"
| "universal_newlines (c # d # cs) =
     (if c = CHR 0x0D \<and> d = CHR 0x0A then CHR 0x0A # universal_newlines cs
      else if c = CHR 0x0D then CHR 0x0A # universal_newlines (d # cs)
      else c # universal_newlines (d # cs))"

text \<open>The lines of a text: what iterating over the open file yields, line ends dropped.\<close>

fun text_lines :: "string \<Rightarrow> string \<Rightarrow> string list" where
  "text_lines cur [] = (if cur = [] then [] else [cur])"
| "text_lines cur (c # cs) =
     (if c = CHR 0x0A then cur # text_lines [] cs else text_lines (cur @ [c]) cs)"

text \<open>
  \<open>csv.reader\<close>: the parser of the module, one character at a time.  A blank line
  gives the empty row; a quote opens a quoted field only at the start of a field.
\<close>

datatype csv_state = StartRecord | StartField | InField | InQuoted | QuoteInQuoted

fun csv_parse ::
  "csv_state \<Rightarrow> string \<Rightarrow> string list \<Rightarrow> string \<Rightarrow> string list list" where
  "csv_parse s fld row [] = (if s = StartRecord then [] else [row @ [fld]])"
| "csv_parse s fld row (c # cs) =
     (case s of
        StartRecord \<Rightarrow>
          if c = CHR 0x0A \<or> c = CHR 0x0D then [] # csv_parse StartRecord [] [] cs
          else if c = CHR 0x22 then csv_parse InQuoted [] [] cs
          else if c = CHR '','' then csv_parse StartField [] [[]] cs
          else csv_parse InField [c] [] cs
      | StartField \<Rightarrow>
          if c = CHR 0x0A \<or> c = CHR 0x0D then (row @ [[]]) # csv_parse StartRecord [] [] cs
          else if c = CHR 0x22 then csv_parse InQuoted [] row cs
          else if c = CHR '','' then csv_parse StartField [] (row @ [[]]) cs
          else csv_parse InField [c] row cs
      | InField \<Rightarrow>
          if c = CHR 0x0A \<or> c = CHR 0x0D then (row @ [fld]) # csv_parse StartRecord [] [] cs
          else if c = CHR '','' then csv_parse StartField [] (row @ [fld]) cs
          else csv_parse InField (fld @ [c]) row cs
      | InQuoted \<Rightarrow>
          if c = CHR 0x22 then csv_parse QuoteInQuoted fld row cs
          else csv_parse InQuoted (fld @ [c]) row cs
      | QuoteInQuoted \<Rightarrow>
          if c = CHR 0x22 then csv_parse InQuoted (fld @ [c]) row cs
          else if c = CHR '','' then csv_parse StartField [] (row @ [fld]) cs
          else if c = CHR 0x0A \<or> c = CHR 0x0D then (row @ [fld]) # csv_parse StartRecord [] [] cs
          else csv_parse InField (fld @ [c]) row cs)"

definition csv_reader :: "string \<Rightarrow> string list list" where
  "csv_reader txt = csv_parse StartRecord [] [] txt"

text \<open>
  \<open>csv.DictReader\<close>: the first row names the columns; every later row that is not
  blank becomes a dictionary from those names to its fields, a missing field being
  \<open>None\<close>, and the later of two columns of one name winning.
\<close>

definition row_dict :: "string list \<Rightarrow> string list \<Rightarrow> (string \<rightharpoonup> string option)" where
  "row_dict names row =
     map_of (rev (zip names (map Some row @ replicate (length names - length row) None)))"

definition dict_reader :: "string list list \<Rightarrow> (string \<rightharpoonup> string option) list" where
  "dict_reader rows =
     (case rows of
        [] \<Rightarrow> []
      | names # rest \<Rightarrow> map (row_dict names) (filter (\<lambda>r. r \<noteq> []) rest))"

text \<open>\<open>float(row[key])\<close>: a missing column is a \<open>KeyError\<close>, a missing field a \<open>TypeError\<close>.\<close>

definition field_float :: "(string \<rightharpoonup> string option) \<Rightarrow> string \<Rightarrow> exn + rat" where
  "field_float row k =
     (case row k of
        None \<Rightarrow> Inl KeyError
      | Some None \<Rightarrow> Inl TypeError
      | Some (Some s) \<Rightarrow> py_float s)"

subsection \<open>Readings, statistics, the JSON document\<close>

text \<open>The dictionary \<open>read_sensor\<close> builds: its four keys always hold a value.\<close>

record reading =
  timestamp :: string
  temperature_c :: rat
  temperature_f :: rat
  humidity_percent :: rat

text \<open>The dictionary \<open>get_statistics\<close> returns (its \<open>min\<close>, \<open>max\<close>, \<open>avg\<close> entries).\<close>

record summary =
  min_val :: rat
  max_val :: rat
  avg :: rat

record stats =
  stats_readings_count :: nat
  temperature :: summary
  humidity :: summary

text \<open>
  What \<open>json.load\<close> returns and \<open>json.dump\<close> takes.  The JSON file is kept as the
  document it holds: that \<open>json.load\<close> reads back what \<open>json.dump\<close> wrote is taken
  from the library.
\<close>

datatype json =
    JNull
  | JNum rat
  | JStr string
  | JList "json list"
  | JDict "(string \<times> json) list"

definition reading_json :: "reading \<Rightarrow> json" where
  "reading_json data =
     JDict [(''timestamp'', JStr (timestamp data)),
            (''temperature_c'', JNum (temperature_c data)),
            (''temperature_f'', JNum (temperature_f data)),
            (''humidity_percent'', JNum (humidity_percent data))]"

subsection \<open>The logger, its log and its environment\<close>

datatype level = DEBUG | INFO | WARNING | ERROR

text \<open>The messages of the source, one constructor for each \<open>logger\<close> call.\<close>

datatype msg =
    CsvFileCreated
  | SensorReadSuccessful
  | SensorReturnedNone
  | SensorReadError
  | UnexpectedErrorReadingSensor
  | DataSavedToCsv
  | ErrorSavingToCsv
  | DataSavedToJson
  | ErrorSavingToJson
  | ErrorCalculatingStatistics
  | StartingSensorMonitoring
  | StatisticsAfter stats
  | TooManyConsecutiveErrors
  | KeyboardInterruptReceived
  | UnexpectedErrorInMainLoop
  | ShutdownSignalReceived
  | SensorCleanupCompleted
  | FinalStatistics stats
  | ErrorDuringCleanup
  | FatalError

text \<open>
  The state of the process: the attributes of the logger object the methods change
  (\<open>running\<close>, and the contents of the files \<open>csv_file\<close> and \<open>json_file\<close> name, \<open>None\<close>
  for a file that does not exist), the lines logged and the readings printed, the two
  local variables of \<open>run\<close> (\<open>consecutive_errors\<close>, \<open>readings_count\<close>), and three
  counters that only observe: how often \<open>signal_handler\<close> and \<open>cleanup\<close> were entered
  and how often \<open>sensor.exit()\<close>, the release of the sensor handle, was called.
\<close>

record state =
  running :: bool
  csv_file :: "string option"
  json_file :: "json option"
  logged :: "(level \<times> msg) list"
  console :: "reading list"
  consecutive_errors :: nat
  readings_count :: nat
  signals_handled :: nat
  cleanup_calls :: nat
  sensor_exit_calls :: nat

definition log_add :: "level \<Rightarrow> msg \<Rightarrow> state \<Rightarrow> state" where
  "log_add l m st = st\<lparr>logged := logged st @ [(l, m)]\<rparr>"

text \<open>
  What \<open>cleanup\<close> meets when it runs: whether \<open>sensor.exit()\<close> and the opening of the
  CSV file for the final statistics raise.
\<close>

record cleanup_env =
  exit_r :: "exn option"
  final_stats_r :: "exn option"

text \<open>
  The outcome of one call into the environment: it returns, it raises, or a
  \<open>SIGINT\<close>/\<open>SIGTERM\<close> arrives while the program is at this call, so that
  \<open>signal_handler\<close> runs there and the call is not completed.
\<close>

datatype 'a resp = Ret 'a | Raise exn | Signal cleanup_env

text \<open>The calls of one turn of the loop, in the order of the source.\<close>

record cycle_env =
  temperature_r :: "rat option resp"
  humidity_r :: "rat option resp"
  now :: datetime
  display_r :: "unit resp"
  csv_r :: "unit resp"
  json_read_r :: "unit resp"
  json_write_r :: "unit resp"
  stats_r :: "unit resp"
  sleep_r :: "unit resp"
  handler_sleep_r :: "unit resp"

text \<open>The arguments of \<open>run\<close> (the interval only sets how long \<open>time.sleep\<close> lasts).\<close>

record config =
  display :: bool
  save_csv :: bool
  save_json :: bool

subsection \<open>get_statistics\<close>

fun data_points :: "(string \<rightharpoonup> string option) list \<Rightarrow> exn + (rat \<times> rat) list" where
  "data_points [] = Inr []"
| "data_points (row # rows) =
     (case field_float row ''temperature_c'' of
        Inl e \<Rightarrow> Inl e
      | Inr t \<Rightarrow>
         (case field_float row ''humidity_percent'' of
            Inl e \<Rightarrow> Inl e
          | Inr h \<Rightarrow>
             (case data_points rows of
                Inl e \<Rightarrow> Inl e
              | Inr pts \<Rightarrow> Inr ((t, h) # pts))))"

text \<open>\<open>min\<close>, \<open>max\<close> and \<open>sum(xs) / len(xs)\<close> of a list that is not empty.\<close>

definition summarise :: "rat \<Rightarrow> rat list \<Rightarrow> summary" where
  "summarise x xs =
     \<lparr>min_val = fold min xs x, max_val = fold max xs x,
      avg = sum_list (x # xs) / of_nat (length (x # xs))\<rparr>"

definition compute_stats :: "(rat \<times> rat) list \<Rightarrow> stats option" where
  "compute_stats pts =
     (case pts of
        [] \<Rightarrow> None
      | p # ps \<Rightarrow>
          Some \<lparr>stats_readings_count = length pts,
                temperature = summarise (fst p) (map fst ps),
                humidity = summarise (snd p) (map snd ps)\<rparr>)"

text \<open>
  \<open>get_statistics\<close>, given what opening the CSV file raised (\<open>None\<close>: it opened).
  An exception of class \<open>Exception\<close> is logged and \<open>None\<close> returned; any other one
  leaves the method.
\<close>

definition get_statistics_except :: "exn \<Rightarrow> state \<Rightarrow> state \<times> (exn + stats option)" where
  "get_statistics_except e st =
     (if is_Exception e then (log_add ERROR ErrorCalculatingStatistics st, Inr None)
      else (st, Inl e))"

definition get_statistics_io :: "exn option \<Rightarrow> state \<Rightarrow> state \<times> (exn + stats option)" where
  "get_statistics_io io st =
     (case io of
        Some e \<Rightarrow> get_statistics_except e st
      | None \<Rightarrow>
         (case csv_file st of
            None \<Rightarrow> get_statistics_except OSError st
          | Some content \<Rightarrow>
             (case data_points (dict_reader (csv_reader (universal_newlines content))) of
                Inl e \<Rightarrow> get_statistics_except e st
              | Inr pts \<Rightarrow> (st, Inr (compute_stats pts)))))"

subsection \<open>cleanup and signal_handler\<close>

definition cleanup_except :: "exn \<Rightarrow> state \<Rightarrow> state \<times> exn option" where
  "cleanup_except e st =
     (if is_Exception e then (log_add ERROR ErrorDuringCleanup st, None) else (st, Some e))"

definition cleanup :: "cleanup_env \<Rightarrow> state \<Rightarrow> state \<times> exn option" where
  "cleanup ce st =
     (let st0 = st\<lparr>cleanup_calls := cleanup_calls st + 1\<rparr>;
          st1 = st0\<lparr>sensor_exit_calls := sensor_exit_calls st0 + 1\<rparr>
      in case exit_r ce of
           Some e \<Rightarrow> cleanup_except e st1
         | None \<Rightarrow>
            (case get_statistics_io (final_stats_r ce) (log_add INFO SensorCleanupCompleted st1) of
               (st2, Inl e) \<Rightarrow> cleanup_except e st2
             | (st2, Inr None) \<Rightarrow> (st2, None)
             | (st2, Inr (Some s)) \<Rightarrow> (log_add INFO (FinalStatistics s) st2, None)))"

text \<open>
  \<open>signal_handler\<close> never returns: it ends in \<open>sys.exit(0)\<close>, that is, it raises
  \<open>SystemExit(0)\<close> where the signal arrived (or what \<open>cleanup\<close> let through).
\<close>

definition signal_handler :: "cleanup_env \<Rightarrow> state \<Rightarrow> state \<times> exn" where
  "signal_handler ce st =
     (let st0 = log_add INFO ShutdownSignalReceived (st\<lparr>signals_handled := signals_handled st + 1\<rparr>);
          st1 = st0\<lparr>running := False\<rparr>
      in case cleanup ce st1 of
           (st2, Some e) \<Rightarrow> (st2, e)
         | (st2, None) \<Rightarrow> (st2, SystemExit 0))"

fun env_call :: "'a resp \<Rightarrow> state \<Rightarrow> state \<times> (exn + 'a)" where
  "env_call (Ret v) st = (st, Inr v)"
| "env_call (Raise e) st = (st, Inl e)"
| "env_call (Signal ce) st = (case signal_handler ce st of (st', e) \<Rightarrow> (st', Inl e))"

definition get_statistics :: "unit resp \<Rightarrow> state \<Rightarrow> state \<times> (exn + stats option)" where
  "get_statistics r st =
     (case env_call r st of
        (st1, Inl e) \<Rightarrow> get_statistics_io (Some e) st1
      | (st1, Inr u) \<Rightarrow> get_statistics_io None st1)"

subsection \<open>read_sensor and the sinks\<close>

definition init_csv_file :: "state \<Rightarrow> state" where
  "init_csv_file st =
     log_add INFO CsvFileCreated
       (st\<lparr>csv_file :=
          Some (csv_writerow [''timestamp'', ''temperature_c'', ''temperature_f'', ''humidity_percent''])\<rparr>)"

definition read_sensor_except :: "exn \<Rightarrow> state \<Rightarrow> state \<times> (exn + reading option)" where
  "read_sensor_except e st =
     (if e = RuntimeError then (log_add DEBUG SensorReadError st, Inr None)
      else if is_Exception e then (log_add ERROR UnexpectedErrorReadingSensor st, Inr None)
      else (st, Inl e))"

definition make_reading :: "datetime \<Rightarrow> rat \<Rightarrow> rat \<Rightarrow> reading" where
  "make_reading dt t h =
     (let tf = t * 9 / 5 + 32
      in \<lparr>timestamp = isoformat dt,
          temperature_c = py_round1 t,
          temperature_f = py_round1 tf,
          humidity_percent = py_round1 h\<rparr>)"

definition read_sensor :: "cycle_env \<Rightarrow> state \<Rightarrow> state \<times> (exn + reading option)" where
  "read_sensor ev st =
     (case env_call (temperature_r ev) st of
        (st1, Inl e) \<Rightarrow> read_sensor_except e st1
      | (st1, Inr t) \<Rightarrow>
         (case env_call (humidity_r ev) st1 of
            (st2, Inl e) \<Rightarrow> read_sensor_except e st2
          | (st2, Inr h) \<Rightarrow>
             (case (t, h) of
                (Some tv, Some hv) \<Rightarrow>
                  (log_add DEBUG SensorReadSuccessful st2, Inr (Some (make_reading (now ev) tv hv)))
              | _ \<Rightarrow> (log_add WARNING SensorReturnedNone st2, Inr None))))"

definition csv_row :: "reading \<Rightarrow> string list" where
  "csv_row data =
     [timestamp data, float_str (temperature_c data), float_str (temperature_f data),
      float_str (humidity_percent data)]"

definition save_to_csv :: "unit resp \<Rightarrow> reading \<Rightarrow> state \<Rightarrow> state \<times> exn option" where
  "save_to_csv r data st =
     (case env_call r st of
        (st1, Inl e) \<Rightarrow>
          if is_Exception e then (log_add ERROR ErrorSavingToCsv st1, None) else (st1, Some e)
      | (st1, Inr u) \<Rightarrow>
          (log_add DEBUG DataSavedToCsv
             (st1\<lparr>csv_file :=
                Some ((case csv_file st1 of None \<Rightarrow> [] | Some content \<Rightarrow> content) @
                      csv_writerow (csv_row data))\<rparr>),
           None))"

definition save_to_json_except :: "exn \<Rightarrow> state \<Rightarrow> state \<times> exn option" where
  "save_to_json_except e st =
     (if is_Exception e then (log_add ERROR ErrorSavingToJson st, None) else (st, Some e))"

definition save_to_json ::
  "unit resp \<Rightarrow> unit resp \<Rightarrow> reading \<Rightarrow> state \<Rightarrow> state \<times> exn option" where
  "save_to_json rd wr data st =
     (case (case json_file st of
              Some doc \<Rightarrow>
                (case env_call rd st of
                   (st1, Inl e) \<Rightarrow> (st1, Inl e)
                 | (st1, Inr u) \<Rightarrow> (st1, Inr doc))
            | None \<Rightarrow> (st, Inr (JList []))) of
        (st1, Inl e) \<Rightarrow> save_to_json_except e st1
      | (st1, Inr json_data) \<Rightarrow>
         (case json_data of
            JList items \<Rightarrow>
              (case env_call wr st1 of
                 (st2, Inl e) \<Rightarrow> save_to_json_except e st2
               | (st2, Inr u) \<Rightarrow>
                   (log_add DEBUG DataSavedToJson
                      (st2\<lparr>json_file := Some (JList (items @ [reading_json data]))\<rparr>),
                    None))
          | _ \<Rightarrow> save_to_json_except AttributeError st1))"

definition display_data :: "unit resp \<Rightarrow> reading \<Rightarrow> state \<Rightarrow> state \<times> exn option" where
  "display_data r data st =
     (case env_call r st of
        (st1, Inl e) \<Rightarrow> (st1, Some e)
      | (st1, Inr u) \<Rightarrow> (st1\<lparr>console := console st1 @ [data]\<rparr>, None))"

subsection \<open>run\<close>

text \<open>Statements in sequence: the second runs unless the first raised.\<close>

definition seq ::
  "(state \<Rightarrow> state \<times> exn option) \<Rightarrow> (state \<Rightarrow> state \<times> exn option) \<Rightarrow> state \<Rightarrow> state \<times> exn option" where
  "seq f g st = (case f st of (st1, Some e) \<Rightarrow> (st1, Some e) | (st1, None) \<Rightarrow> g st1)"

definition skip :: "state \<Rightarrow> state \<times> exn option" where
  "skip st = (st, None)"

definition log_statistics :: "unit resp \<Rightarrow> state \<Rightarrow> state \<times> exn option" where
  "log_statistics r st =
     (if readings_count st mod 10 = 0
      then (case get_statistics r st of
              (st1, Inl e) \<Rightarrow> (st1, Some e)
            | (st1, Inr None) \<Rightarrow> (st1, None)
            | (st1, Inr (Some s)) \<Rightarrow> (log_add INFO (StatisticsAfter s) st1, None))
      else (st, None))"

text \<open>The branch \<open>if data:\<close> of the loop body.\<close>

definition on_reading :: "config \<Rightarrow> cycle_env \<Rightarrow> reading \<Rightarrow> state \<Rightarrow> state \<times> exn option" where
  "on_reading cfg ev data st =
     seq (if display cfg then display_data (display_r ev) data else skip)
       (seq (if save_csv cfg then save_to_csv (csv_r ev) data else skip)
          (seq (if save_json cfg then save_to_json (json_read_r ev) (json_write_r ev) data else skip)
             (log_statistics (stats_r ev))))
       (st\<lparr>readings_count := readings_count st + 1, consecutive_errors := 0\<rparr>)"

text \<open>The branch \<open>else:\<close> of the loop body.\<close>

definition on_failure :: "state \<Rightarrow> state \<times> exn option" where
  "on_failure st =
     (let st1 = st\<lparr>consecutive_errors := consecutive_errors st + 1\<rparr>
      in if consecutive_errors st1 \<ge> 10
         then ((log_add ERROR TooManyConsecutiveErrors st1)\<lparr>consecutive_errors := 0\<rparr>, None)
         else (st1, None))"

definition sleep :: "unit resp \<Rightarrow> state \<Rightarrow> state \<times> exn option" where
  "sleep r st = (case env_call r st of (st1, Inl e) \<Rightarrow> (st1, Some e) | (st1, Inr u) \<Rightarrow> (st1, None))"

text \<open>The body of the \<open>try\<close> of the loop.\<close>

definition try_body :: "config \<Rightarrow> cycle_env \<Rightarrow> state \<Rightarrow> state \<times> exn option" where
  "try_body cfg ev st =
     (case read_sensor ev st of
        (st1, Inl e) \<Rightarrow> (st1, Some e)
      | (st1, Inr data) \<Rightarrow>
          seq (case data of Some d \<Rightarrow> on_reading cfg ev d | None \<Rightarrow> on_failure)
              (sleep (sleep_r ev)) st1)"

text \<open>
  One turn of the loop, the \<open>try\<close> with its two \<open>except\<close> clauses.  An exception
  raised by the \<open>time.sleep\<close> of the second clause leaves \<open>run\<close>, whatever its class.
\<close>

definition cycle :: "config \<Rightarrow> cycle_env \<Rightarrow> state \<Rightarrow> state \<times> exn option" where
  "cycle cfg ev st =
     (case try_body cfg ev st of
        (st1, None) \<Rightarrow> (st1, None)
      | (st1, Some e) \<Rightarrow>
          if e = KeyboardInterrupt
          then ((log_add INFO KeyboardInterruptReceived st1)\<lparr>running := False\<rparr>, None)
          else if is_Exception e
          then sleep (handler_sleep_r ev) (log_add ERROR UnexpectedErrorInMainLoop st1)
          else (st1, Some e))"

text \<open>
  How far \<open>run\<close> has come after the turns the environment has answered: it is still
  polling, it has returned, or an exception has left it.
\<close>

datatype status = Polling | Returned | Propagated exn

fun run_loop :: "config \<Rightarrow> cycle_env list \<Rightarrow> state \<Rightarrow> state \<times> status" where
  "run_loop cfg [] st = (st, if running st then Polling else Returned)"
| "run_loop cfg (ev # evs) st =
     (if running st
      then (case cycle cfg ev st of
              (st1, None) \<Rightarrow> run_loop cfg evs st1
            | (st1, Some e) \<Rightarrow> (st1, Propagated e))
      else (st, Returned))"

definition run :: "config \<Rightarrow> cycle_env list \<Rightarrow> state \<Rightarrow> state \<times> status" where
  "run cfg evs st =
     run_loop cfg evs
       ((log_add INFO StartingSensorMonitoring st)\<lparr>consecutive_errors := 0, readings_count := 0\<rparr>)"

subsection \<open>The process\<close>

text \<open>
  The logger object after \<open>__init__\<close>: running, the CSV file holding its header, no
  JSON file yet (both files carry the second the process started in their names).
\<close>

definition new_logger :: state where
  "new_logger =
     init_csv_file
       \<lparr>running = True, csv_file = None, json_file = None, logged = [], console = [],
        consecutive_errors = 0, readings_count = 0, signals_handled = 0, cleanup_calls = 0,
        sensor_exit_calls = 0\<rparr>"

text \<open>
  How the process ends: \<open>main\<close> turns an \<open>Exception\<close> into exit status 1, a
  \<open>SystemExit\<close> carries its own status, and \<open>run\<close> returning ends the script with 0.
\<close>

datatype process = Alive | Exited int | Killed exn

definition main :: "config \<Rightarrow> cycle_env list \<Rightarrow> state \<times> process" where
  "main cfg evs =
     (case run cfg evs new_logger of
        (st, Polling) \<Rightarrow> (st, Alive)
      | (st, Returned) \<Rightarrow> (st, Exited 0)
      | (st, Propagated e) \<Rightarrow>
          if is_Exception e then (log_add ERROR FatalError st, Exited 1)
          else (case e of SystemExit code \<Rightarrow> (st, Exited code) | _ \<Rightarrow> (st, Killed e)))"

subsection \<open>Observations on the loop\<close>

text \<open>The threshold warnings logged so far.\<close>

definition threshold_warnings :: "state \<Rightarrow> nat" where
  "threshold_warnings st =
     length (filter (\<lambda>x. x = (ERROR, TooManyConsecutiveErrors)) (logged st))"

text \<open>\<open>read_sensor\<close> returns \<open>None\<close>: a value is missing, or the driver raised an \<open>Exception\<close>.\<close>

definition read_fails :: "cycle_env \<Rightarrow> bool" where
  "read_fails ev =
     (case temperature_r ev of
        Raise e \<Rightarrow> is_Exception e
      | Signal ce \<Rightarrow> False
      | Ret t \<Rightarrow>
         (case humidity_r ev of
            Raise e \<Rightarrow> is_Exception e
          | Signal ce \<Rightarrow> False
          | Ret h \<Rightarrow> t = None \<or> h = None))"

text \<open>
  What one statement of the loop body can do to the shutdown bookkeeping: nothing,
  or exactly one signal is handled, which stops the logger and raises an exception
  that no \<open>except Exception\<close> catches.
\<close>

definition sframe :: "state \<Rightarrow> state \<Rightarrow> exn option \<Rightarrow> bool" where
  "sframe st st' r =
     ((signals_handled st' = signals_handled st \<and> cleanup_calls st' = cleanup_calls st \<and>
        sensor_exit_calls st' = sensor_exit_calls st \<and> running st' = running st) \<or>
       (signals_handled st' = signals_handled st + 1 \<and> cleanup_calls st' = cleanup_calls st + 1 \<and>
        sensor_exit_calls st' = sensor_exit_calls st + 1 \<and> \<not> running st' \<and>
        (\<exists>e. r = Some e \<and> \<not> is_Exception e)))"

text \<open>The same, for the statements that leave the failure counter as it is.\<close>

definition frame :: "state \<Rightarrow> state \<Rightarrow> exn option \<Rightarrow> bool" where
  "frame st st' r = (consecutive_errors st' = consecutive_errors st \<and> sframe st st' r)"


text \<open>
  The kinds of events the loop has to tell apart.  At one call: an interrupt is a
  signal arriving there or a \<open>KeyboardInterrupt\<close> raised there; a fatal error is an
  exception outside the class \<open>Exception\<close> that is not a \<open>KeyboardInterrupt\<close>.  In one
  turn: an interrupt or a fatal error at any of its calls, and, fatal as well, any
  exception other than \<open>KeyboardInterrupt\<close> raised by the \<open>time.sleep\<close> of the
  \<open>except Exception\<close> clause, which no handler encloses.  A transient read failure
  is what \<open>read_sensor\<close> expects from the driver: a \<open>RuntimeError\<close>, or a value that is
  \<open>None\<close>.
\<close>

definition interrupt_at :: "'a resp \<Rightarrow> bool" where
  "interrupt_at r = (case r of Ret v \<Rightarrow> False | Raise e \<Rightarrow> e = KeyboardInterrupt | Signal ce \<Rightarrow> True)"

definition fatal_at :: "'a resp \<Rightarrow> bool" where
  "fatal_at r =
     (case r of Ret v \<Rightarrow> False | Raise e \<Rightarrow> \<not> is_Exception e \<and> e \<noteq> KeyboardInterrupt
      | Signal ce \<Rightarrow> False)"

definition interrupt_requested :: "cycle_env \<Rightarrow> bool" where
  "interrupt_requested ev =
     (interrupt_at (temperature_r ev) \<or> interrupt_at (humidity_r ev) \<or>
      interrupt_at (display_r ev) \<or> interrupt_at (csv_r ev) \<or>
      interrupt_at (json_read_r ev) \<or> interrupt_at (json_write_r ev) \<or>
      interrupt_at (stats_r ev) \<or> interrupt_at (sleep_r ev) \<or>
      interrupt_at (handler_sleep_r ev))"

definition fatal_failure :: "cycle_env \<Rightarrow> bool" where
  "fatal_failure ev =
     (fatal_at (temperature_r ev) \<or> fatal_at (humidity_r ev) \<or>
      fatal_at (display_r ev) \<or> fatal_at (csv_r ev) \<or>
      fatal_at (json_read_r ev) \<or> fatal_at (json_write_r ev) \<or>
      fatal_at (stats_r ev) \<or> fatal_at (sleep_r ev) \<or>
      (case handler_sleep_r ev of Ret v \<Rightarrow> False | Raise e \<Rightarrow> e \<noteq> KeyboardInterrupt
       | Signal ce \<Rightarrow> False))"

definition transient_read_failure :: "cycle_env \<Rightarrow> bool" where
  "transient_read_failure ev =
     (case temperature_r ev of
        Raise e \<Rightarrow> e = RuntimeError
      | Signal ce \<Rightarrow> False
      | Ret t \<Rightarrow>
         (case humidity_r ev of
            Raise e \<Rightarrow> e = RuntimeError
          | Signal ce \<Rightarrow> False
          | Ret h \<Rightarrow> t = None \<or> h = None))"

text \<open>A write to a sink that fails: the call raises an \<open>Exception\<close> (an \<open>OSError\<close>, say).\<close>

definition io_failure :: "unit resp \<Rightarrow> bool" where
  "io_failure r = (case r of Ret v \<Rightarrow> False | Raise e \<Rightarrow> is_Exception e | Signal ce \<Rightarrow> False)"

text \<open>
  With neither an interrupt nor a fatal error, a statement leaves \<open>running\<close> as it is
  and raises nothing but an \<open>Exception\<close>.
\<close>

definition calm :: "state \<Rightarrow> state \<Rightarrow> exn option \<Rightarrow> bool" where
  "calm st st' r = (running st' = running st \<and> (case r of None \<Rightarrow> True | Some e \<Rightarrow> is_Exception e))"

text \<open>
  The shutdown bookkeeping of a process: \<open>cleanup\<close> has run, and the sensor handle
  has been released, as often as a signal was handled, which is at most once, and
  once one was handled the logger no longer runs.
\<close>

definition shutdown_inv :: "state \<Rightarrow> bool" where
  "shutdown_inv st =
     (cleanup_calls st = signals_handled st \<and> sensor_exit_calls st = signals_handled st \<and>
      signals_handled st \<le> 1 \<and> (signals_handled st = 1 \<longrightarrow> \<not> running st))"

subsection \<open>Example environments\<close>

text \<open>
  A turn in which every call but the two reads of the driver returns, and the two
  configurations: the one \<open>main\<close> passes to \<open>run\<close>, and the one with every sink on.
\<close>

definition example_time :: datetime where
  "example_time = \<lparr>year = 2025, month = 1, day = 2, hour = 3, minute = 4, second = 5, microsecond = 678\<rparr>"

definition quiet_turn :: "rat option resp \<Rightarrow> rat option resp \<Rightarrow> cycle_env" where
  "quiet_turn tr hr =
     \<lparr>temperature_r = tr, humidity_r = hr, now = example_time, display_r = Ret (),
      csv_r = Ret (), json_read_r = Ret (), json_write_r = Ret (), stats_r = Ret (),
      sleep_r = Ret (), handler_sleep_r = Ret ()\<rparr>"

definition default_config :: config where
  "default_config = \<lparr>display = True, save_csv = True, save_json = False\<rparr>"

definition all_sinks :: config where
  "all_sinks = \<lparr>display = True, save_csv = True, save_json = True\<rparr>"

subsection \<open>The DHT22 logger (DHT22/trixie-logger-gen2/main.py)\<close>

text \<open>
  The second script derives Fahrenheit before it looks at the values (line 96), and
  writes a row only when both values are there (lines 99 to 114), each number through
  \<open>f"{x:.1f}"\<close>: rounded to one decimal, the sign of the number kept.
\<close>

definition dht22_temperature_f :: "rat option \<Rightarrow> rat option" where
  "dht22_temperature_f tc =
     (case tc of Some c \<Rightarrow> Some (c * 9 / 5 + 32) | None \<Rightarrow> None)"

definition format_1f :: "rat \<Rightarrow> string" where
  "format_1f x =
     (let t = nat (round_half_even (\<bar>x\<bar> * 10))
      in (if x < 0 then ''-'' else []) @ str_nat (t div 10) @ ''.'' @ str_nat (t mod 10))"

definition dht22_row :: "string \<Rightarrow> rat option \<Rightarrow> rat option \<Rightarrow> string list option" where
  "dht22_row ts tc hm =
     (case (hm, tc, dht22_temperature_f tc) of
        (Some h, Some c, Some f) \<Rightarrow> Some [ts, format_1f c, format_1f f, format_1f h]
      | _ \<Rightarrow> None)"

subsection \<open>Appending several readings\<close>

text \<open>
  \<open>save_to_json\<close> for one reading after the other, every read and write of the file
  succeeding; and the sequence the JSON file stands for, as \<open>save_to_json\<close> itself
  takes it: the empty one when the file is not there yet.
\<close>

fun save_all_to_json :: "reading list \<Rightarrow> state \<Rightarrow> state" where
  "save_all_to_json [] st = st"
| "save_all_to_json (d # ds) st = save_all_to_json ds (fst (save_to_json (Ret ()) (Ret ()) d st))"

definition json_records :: "state \<Rightarrow> json list option" where
  "json_records st =
     (case json_file st of
        None \<Rightarrow> Some []
      | Some (JList items) \<Rightarrow> Some items
      | Some other \<Rightarrow> None)"

section \<open>Properties\<close>

subsection \<open>What the statements leave unchanged\<close>

lemma log_add_fields [simp]:
  "running (log_add l m st) = running st"
  "csv_file (log_add l m st) = csv_file st"
  "json_file (log_add l m st) = json_file st"
  "console (log_add l m st) = console st"
  "consecutive_errors (log_add l m st) = consecutive_errors st"
  "readings_count (log_add l m st) = readings_count st"
  "signals_handled (log_add l m st) = signals_handled st"
  "cleanup_calls (log_add l m st) = cleanup_calls st"
  "sensor_exit_calls (log_add l m st) = sensor_exit_calls st"
  "logged (log_add l m st) = logged st @ [(l, m)]"
  by (simp_all add: log_add_def)

lemma get_statistics_io_fields [simp]:
  "running (fst (get_statistics_io io st)) = running st"
  "csv_file (fst (get_statistics_io io st)) = csv_file st"
  "json_file (fst (get_statistics_io io st)) = json_file st"
  "console (fst (get_statistics_io io st)) = console st"
  "consecutive_errors (fst (get_statistics_io io st)) = consecutive_errors st"
  "readings_count (fst (get_statistics_io io st)) = readings_count st"
  "signals_handled (fst (get_statistics_io io st)) = signals_handled st"
  "cleanup_calls (fst (get_statistics_io io st)) = cleanup_calls st"
  "sensor_exit_calls (fst (get_statistics_io io st)) = sensor_exit_calls st"
  by (simp_all add: get_statistics_io_def get_statistics_except_def split: option.splits sum.splits)

lemma get_statistics_io_exn:
  "snd (get_statistics_io io st) = Inl e \<Longrightarrow> \<not> is_Exception e"
  by (auto simp: get_statistics_io_def get_statistics_except_def split: option.splits sum.splits if_splits)

lemma fst_eqD: "p = (a, b) \<Longrightarrow> fst p = a" by simp
lemma snd_eqD: "p = (a, b) \<Longrightarrow> snd p = b" by simp

lemma cleanup_fields [simp]:
  "running (fst (cleanup ce st)) = running st"
  "csv_file (fst (cleanup ce st)) = csv_file st"
  "json_file (fst (cleanup ce st)) = json_file st"
  "console (fst (cleanup ce st)) = console st"
  "consecutive_errors (fst (cleanup ce st)) = consecutive_errors st"
  "readings_count (fst (cleanup ce st)) = readings_count st"
  "signals_handled (fst (cleanup ce st)) = signals_handled st"
  "cleanup_calls (fst (cleanup ce st)) = cleanup_calls st + 1"
  "sensor_exit_calls (fst (cleanup ce st)) = sensor_exit_calls st + 1"
  by (auto simp: cleanup_def cleanup_except_def Let_def split: option.splits sum.splits prod.splits
      dest!: fst_eqD)

lemma cleanup_exn: "snd (cleanup ce st) = Some e \<Longrightarrow> \<not> is_Exception e"
  by (auto simp: cleanup_def cleanup_except_def Let_def split: option.splits sum.splits prod.splits if_splits)

lemma signal_handler_fields [simp]:
  "running (fst (signal_handler ce st)) = False"
  "csv_file (fst (signal_handler ce st)) = csv_file st"
  "json_file (fst (signal_handler ce st)) = json_file st"
  "console (fst (signal_handler ce st)) = console st"
  "consecutive_errors (fst (signal_handler ce st)) = consecutive_errors st"
  "readings_count (fst (signal_handler ce st)) = readings_count st"
  "signals_handled (fst (signal_handler ce st)) = signals_handled st + 1"
  "cleanup_calls (fst (signal_handler ce st)) = cleanup_calls st + 1"
  "sensor_exit_calls (fst (signal_handler ce st)) = sensor_exit_calls st + 1"
  by (auto simp: signal_handler_def Let_def split: option.splits prod.splits dest!: fst_eqD)

lemma signal_handler_exn: "snd (signal_handler ce st) = e \<Longrightarrow> \<not> is_Exception e"
  using cleanup_exn by (auto simp: signal_handler_def Let_def split: option.splits prod.splits dest!: snd_eqD)

lemma signal_handler_exn' [simp]: "\<not> is_Exception (snd (signal_handler ce st))"
  using signal_handler_exn by blast


lemma env_call_cases:
  obtains (Ret) v where "r = Ret v" "env_call r st = (st, Inr v)"
  | (Raise) e where "r = Raise e" "env_call r st = (st, Inl e)"
  | (Signal) ce where "r = Signal ce"
      "env_call r st = (fst (signal_handler ce st), Inl (snd (signal_handler ce st)))"
  by (cases r) (auto split: prod.splits)

lemma frame_refl [simp]: "frame st st r"
  by (simp add: frame_def sframe_def)

lemma frame_log [simp]: "frame st (log_add l m st) r"
  by (simp add: frame_def sframe_def)

lemma frame_signal [simp]:
  "frame st (fst (signal_handler ce st)) (Some (snd (signal_handler ce st)))"
  by (simp add: frame_def sframe_def)

lemma frame_trans:
  "frame st st1 None \<Longrightarrow> frame st1 st2 r \<Longrightarrow> frame st st2 r"
  by (auto simp: frame_def sframe_def)

lemma frame_seq:
  assumes "\<And>st st' r. f st = (st', r) \<Longrightarrow> frame st st' r"
      and "\<And>st st' r. g st = (st', r) \<Longrightarrow> frame st st' r"
      and "seq f g st = (st', r)"
    shows "frame st st' r"
proof (cases "f st")
  case (Pair st1 r1)
  show ?thesis
  proof (cases r1)
    case None
    with Pair assms(3) have "g st1 = (st', r)" by (simp add: seq_def)
    with assms(1)[OF Pair] None assms(2) show ?thesis by (blast intro: frame_trans)
  next
    case (Some e)
    with Pair assms(3) have "st' = st1" "r = Some e" by (simp_all add: seq_def)
    with assms(1)[OF Pair] Some show ?thesis by simp
  qed
qed

lemma frame_skip: "skip st = (st', r) \<Longrightarrow> frame st st' r"
  by (auto simp: skip_def)

lemma frame_sleep: "sleep rs st = (st', r) \<Longrightarrow> frame st st' r"
  by (cases rs st rule: env_call_cases) (auto simp: sleep_def)

lemma frame_display: "display_data rs d st = (st', r) \<Longrightarrow> frame st st' r"
  by (cases rs st rule: env_call_cases) (auto simp: display_data_def frame_def sframe_def)

lemma frame_csv: "save_to_csv rs d st = (st', r) \<Longrightarrow> frame st st' r"
  by (cases rs st rule: env_call_cases) (auto simp: save_to_csv_def frame_def sframe_def split: if_splits)

lemma frame_json: "save_to_json rd wr d st = (st', r) \<Longrightarrow> frame st st' r"
  apply (cases rd st rule: env_call_cases; cases wr st rule: env_call_cases)
  apply (auto simp: save_to_json_def save_to_json_except_def frame_def sframe_def sframe_def split: if_splits option.splits json.splits)
  done


lemma get_statistics_io_state:
  "fst (get_statistics_io io st) = st \<or>
   fst (get_statistics_io io st) = log_add ERROR ErrorCalculatingStatistics st"
  by (auto simp: get_statistics_io_def get_statistics_except_def split: option.splits sum.splits)

lemma frame_get_statistics_io: "get_statistics_io io st = (st', x) \<Longrightarrow> frame st st' r"
  using get_statistics_io_state [of io st] by auto

lemma frame_weaken: "frame st st' None \<Longrightarrow> frame st st' r"
  by (simp add: frame_def sframe_def)

lemma get_statistics_cases:
  obtains (Ret) "rs = Ret ()" "get_statistics rs st = get_statistics_io None st"
  | (Raise) e where "rs = Raise e" "get_statistics rs st = get_statistics_except e st"
  | (Signal) ce where "rs = Signal ce"
      "get_statistics rs st = (fst (signal_handler ce st), Inl (snd (signal_handler ce st)))"
  by (cases rs st rule: env_call_cases)
     (auto simp: get_statistics_def get_statistics_io_def get_statistics_except_def)

lemma frame_get_statistics: "get_statistics rs st = (st', Inr x) \<Longrightarrow> frame st st' None"
  by (cases rs st rule: get_statistics_cases)
     (auto simp: get_statistics_except_def
           dest: frame_get_statistics_io frame_get_statistics_io [OF sym] split: if_splits)

lemma frame_get_statistics_raise: "get_statistics rs st = (st', Inl e) \<Longrightarrow> frame st st' (Some e)"
  by (cases rs st rule: get_statistics_cases)
     (auto simp: get_statistics_except_def
           dest: frame_get_statistics_io frame_get_statistics_io [OF sym] split: if_splits)

lemma frame_log_statistics: "log_statistics rs st = (st', r) \<Longrightarrow> frame st st' r"
  by (auto simp: log_statistics_def split: if_splits prod.splits sum.splits option.splits
           dest: frame_get_statistics_raise frame_get_statistics
           intro: frame_trans [OF _ frame_log] frame_weaken)

lemma frame_body:
  assumes "seq (if display cfg then display_data (display_r ev) d else skip)
       (seq (if save_csv cfg then save_to_csv (csv_r ev) d else skip)
          (seq (if save_json cfg then save_to_json (json_read_r ev) (json_write_r ev) d else skip)
             (log_statistics (stats_r ev)))) st = (st', r)"
  shows "frame st st' r"
  using assms
  by (rule frame_seq [rotated 2])
     (auto elim!: frame_seq [rotated 2]
           dest: frame_display frame_csv frame_json frame_log_statistics frame_skip
           split: if_splits)


lemma read_sensor_cases:
  assumes "read_sensor ev st = (st', x)"
  obtains (logged) l m d where "st' = log_add l m st" "x = Inr d" "m \<noteq> TooManyConsecutiveErrors"
  | (raised) e where "x = Inl e" "\<not> is_Exception e" "frame st st' (Some e)"
proof (cases "temperature_r ev" st rule: env_call_cases)
  case (Ret t)
  show ?thesis
  proof (cases "humidity_r ev" st rule: env_call_cases)
    case (Ret h)
    with \<open>env_call (temperature_r ev) st = (st, Inr t)\<close> assms show ?thesis
      by (auto simp: read_sensor_def split: option.splits intro: logged)
  next
    case (Raise e)
    with Ret assms show ?thesis
      by (auto simp: read_sensor_def read_sensor_except_def split: if_splits
          intro: logged raised)
  next
    case (Signal ce)
    with Ret assms show ?thesis
      by (auto simp: read_sensor_def read_sensor_except_def frame_def sframe_def split: if_splits
          intro: logged raised dest: signal_handler_exn)
  qed
next
  case (Raise e)
  with assms show ?thesis
    by (auto simp: read_sensor_def read_sensor_except_def split: if_splits
        intro: logged raised)
next
  case (Signal ce)
  with assms show ?thesis
    by (auto simp: read_sensor_def read_sensor_except_def frame_def sframe_def split: if_splits
        intro: logged raised dest: signal_handler_exn)
qed


lemma sframe_update [simp]:
  "sframe (st\<lparr>readings_count := n, consecutive_errors := c\<rparr>) st' r = sframe st st' r"
  "sframe (st\<lparr>consecutive_errors := c\<rparr>) st' r = sframe st st' r"
  "sframe (st\<lparr>readings_count := n\<rparr>) st' r = sframe st st' r"
  "sframe (log_add l m st) st' r = sframe st st' r"
  by (simp_all add: sframe_def)

lemma on_reading_effect:
  assumes "on_reading cfg ev d st = (st', r)"
  shows "sframe st st' r \<and> consecutive_errors st' = 0"
  using frame_body [OF assms [unfolded on_reading_def]]
  by (simp add: frame_def)

lemma on_failure_effect:
  assumes "on_failure st = (st', r)"
  shows "r = None \<and> sframe st st' r \<and>
         (consecutive_errors st' = 0 \<or>
          (consecutive_errors st' = consecutive_errors st + 1 \<and> consecutive_errors st' < 10))"
  using assms by (auto simp: on_failure_def Let_def sframe_def split: if_splits)

lemma sframe_trans: "sframe st st1 None \<Longrightarrow> sframe st1 st2 r \<Longrightarrow> sframe st st2 r"
  by (auto simp: sframe_def)

lemma then_sleep_effect:
  assumes "seq f (sleep rs) st = (st', r)"
      and "\<And>st1 r1. f st = (st1, r1) \<Longrightarrow> sframe st st1 r1 \<and> P (consecutive_errors st1)"
    shows "sframe st st' r \<and> P (consecutive_errors st')"
proof (cases "f st")
  case (Pair st1 r1)
  note f = assms(2) [OF Pair]
  show ?thesis
  proof (cases r1)
    case None
    with Pair assms(1) have "sleep rs st1 = (st', r)" by (simp add: seq_def)
    from frame_sleep [OF this] f None show ?thesis
      by (auto simp: frame_def intro: sframe_trans)
  next
    case (Some e)
    with Pair assms(1) f show ?thesis by (auto simp: seq_def)
  qed
qed

lemma try_body_effect:
  assumes "try_body cfg ev st = (st', r)"
  shows "sframe st st' r \<and>
         (consecutive_errors st' = consecutive_errors st \<or> consecutive_errors st' = 0 \<or>
          (consecutive_errors st' = consecutive_errors st + 1 \<and> consecutive_errors st' < 10))"
proof (cases "read_sensor ev st")
  case (Pair sta x)
  from Pair show ?thesis
  proof (cases rule: read_sensor_cases)
    case (raised e)
    with Pair assms show ?thesis by (auto simp: try_body_def frame_def)
  next
    case (logged l m d)
    show ?thesis
    proof (cases d)
      case None
      with logged Pair assms
      have "seq on_failure (sleep (sleep_r ev)) sta = (st', r)" by (simp add: try_body_def)
      from then_sleep_effect [OF this, where P = "\<lambda>c. c = 0 \<or> c = consecutive_errors sta + 1 \<and> c < 10"]
        on_failure_effect [of sta] logged
      show ?thesis by auto
    next
      case (Some dd)
      with logged Pair assms
      have "seq (on_reading cfg ev dd) (sleep (sleep_r ev)) sta = (st', r)" by (simp add: try_body_def)
      from then_sleep_effect [OF this, where P = "\<lambda>c. c = 0"]
        on_reading_effect [of cfg ev dd sta] logged
      show ?thesis by auto
    qed
  qed
qed

lemma cycle_effect:
  assumes "cycle cfg ev st = (st', r)"
  shows "(consecutive_errors st' = consecutive_errors st \<or> consecutive_errors st' = 0 \<or>
          (consecutive_errors st' = consecutive_errors st + 1 \<and> consecutive_errors st' < 10)) \<and>
         ((signals_handled st' = signals_handled st \<and> cleanup_calls st' = cleanup_calls st \<and>
           sensor_exit_calls st' = sensor_exit_calls st) \<or>
          (signals_handled st' = signals_handled st + 1 \<and> cleanup_calls st' = cleanup_calls st + 1 \<and>
           sensor_exit_calls st' = sensor_exit_calls st + 1 \<and> \<not> running st'))"
proof (cases "try_body cfg ev st")
  case (Pair st1 r1)
  note tb = try_body_effect [OF Pair]
  show ?thesis
  proof (cases r1)
    case None
    with Pair assms tb show ?thesis by (auto simp: cycle_def sframe_def)
  next
    case (Some e)
    consider "e = KeyboardInterrupt" | "e \<noteq> KeyboardInterrupt" "is_Exception e"
      | "e \<noteq> KeyboardInterrupt" "\<not> is_Exception e" by blast
    then show ?thesis
    proof cases
      case 1
      with Some Pair assms tb show ?thesis by (auto simp: cycle_def sframe_def)
    next
      case 2
      with Some Pair assms
      have "sleep (handler_sleep_r ev) (log_add ERROR UnexpectedErrorInMainLoop st1) = (st', r)"
        by (simp add: cycle_def)
      from frame_sleep [OF this] tb Some 2 show ?thesis
        by (auto simp: frame_def sframe_def)
    next
      case 3
      with Some Pair assms tb show ?thesis by (auto simp: cycle_def sframe_def)
    qed
  qed
qed

subsection \<open>The failure counter\<close>

lemma cycle_consecutive_errors:
  "consecutive_errors (fst (cycle cfg ev st)) =
     (case snd (read_sensor ev st) of
        Inl e \<Rightarrow> consecutive_errors st
      | Inr None \<Rightarrow> if consecutive_errors st + 1 \<ge> 10 then 0 else consecutive_errors st + 1
      | Inr (Some d) \<Rightarrow> 0)"
proof (cases "read_sensor ev st")
  case (Pair sta x)
  obtain st1 r1 where tb: "try_body cfg ev st = (st1, r1)" by (cases "try_body cfg ev st")
  have main: "consecutive_errors (fst (cycle cfg ev st)) = consecutive_errors st1"
  proof (cases r1)
    case None
    with tb show ?thesis by (simp add: cycle_def)
  next
    case (Some e)
    show ?thesis
    proof (cases "e \<noteq> KeyboardInterrupt \<and> is_Exception e")
      case True
      obtain st2 r2 where sl:
        "sleep (handler_sleep_r ev) (log_add ERROR UnexpectedErrorInMainLoop st1) = (st2, r2)"
        by (cases "sleep (handler_sleep_r ev) (log_add ERROR UnexpectedErrorInMainLoop st1)")
      from frame_sleep [OF sl] sl tb Some True show ?thesis
        by (auto simp: cycle_def frame_def)
    next
      case False
      with tb Some show ?thesis by (auto simp: cycle_def)
    qed
  qed
  from Pair show ?thesis
  proof (cases rule: read_sensor_cases)
    case (raised e)
    with Pair tb main show ?thesis by (auto simp: try_body_def frame_def)
  next
    case (logged l m d)
    show ?thesis
    proof (cases d)
      case None
      with logged Pair tb
      have "seq on_failure (sleep (sleep_r ev)) sta = (st1, r1)" by (simp add: try_body_def)
      then have "sframe sta st1 r1 \<and>
            consecutive_errors st1 =
              (if consecutive_errors sta + 1 \<ge> 10 then 0 else consecutive_errors sta + 1)"
      proof (rule then_sleep_effect)
        fix st2 r2 assume "on_failure sta = (st2, r2)"
        then show "sframe sta st2 r2 \<and>
            consecutive_errors st2 =
              (if consecutive_errors sta + 1 \<ge> 10 then 0 else consecutive_errors sta + 1)"
          by (auto simp: on_failure_def Let_def sframe_def split: if_splits)
      qed
      then have "consecutive_errors st1 =
            (if consecutive_errors sta + 1 \<ge> 10 then 0 else consecutive_errors sta + 1)" ..
      with main Pair logged None show ?thesis by simp
    next
      case (Some dd)
      with logged Pair tb
      have "seq (on_reading cfg ev dd) (sleep (sleep_r ev)) sta = (st1, r1)" by (simp add: try_body_def)
      then have "sframe sta st1 r1 \<and> consecutive_errors st1 = 0"
        by (rule then_sleep_effect) (rule on_reading_effect)
      then have "consecutive_errors st1 = 0" ..
      with main Pair logged Some show ?thesis by simp
    qed
  qed
qed

lemma cycle_below_threshold:
  "consecutive_errors st < 10 \<Longrightarrow> consecutive_errors (fst (cycle cfg ev st)) < 10"
  by (simp add: cycle_consecutive_errors split: sum.splits option.splits)

lemma run_loop_below_threshold:
  "consecutive_errors st < 10 \<Longrightarrow> consecutive_errors (fst (run_loop cfg evs st)) < 10"
proof (induction evs arbitrary: st)
  case Nil
  then show ?case by simp
next
  case (Cons ev evs)
  obtain st1 r where c: "cycle cfg ev st = (st1, r)" by (cases "cycle cfg ev st")
  with cycle_below_threshold [OF Cons.prems, of cfg ev]
  have "consecutive_errors st1 < 10" by simp
  with Cons.IH [of st1] Cons.prems c show ?case
    by (cases r) simp_all
qed


text \<open>
  C10.  At the start of every turn of the loop of \<open>run\<close>, that is after any number
  of turns whatever the environment answered, \<open>consecutive_errors\<close> is below the
  threshold 10.  One turn sets it to 0 when \<open>read_sensor\<close> returned a reading, and
  when it returned \<open>None\<close> adds 1, or sets it to 0 if that reaches the threshold;
  the counter is left as it was only when an exception left \<open>read_sensor\<close>, which
  ends the loop.
\<close>

theorem consecutive_errors_below_threshold:
  "consecutive_errors (fst (run cfg evs st)) < 10 \<and>
   consecutive_errors (fst (cycle cfg ev s)) =
     (case snd (read_sensor ev s) of
        Inl e \<Rightarrow> consecutive_errors s
      | Inr None \<Rightarrow> if consecutive_errors s + 1 \<ge> 10 then 0 else consecutive_errors s + 1
      | Inr (Some d) \<Rightarrow> 0)"
proof
  show "consecutive_errors (fst (run cfg evs st)) < 10"
    unfolding run_def by (rule run_loop_below_threshold) simp
  show "consecutive_errors (fst (cycle cfg ev s)) =
     (case snd (read_sensor ev s) of
        Inl e \<Rightarrow> consecutive_errors s
      | Inr None \<Rightarrow> if consecutive_errors s + 1 \<ge> 10 then 0 else consecutive_errors s + 1
      | Inr (Some d) \<Rightarrow> 0)"
    by (rule cycle_consecutive_errors)
qed

subsection \<open>The example environments\<close>

lemma running_new_logger: "running new_logger" "consecutive_errors new_logger = 0"
  "threshold_warnings new_logger = 0" "json_file new_logger = None"
  by (simp_all add: new_logger_def init_csv_file_def threshold_warnings_def log_add_def)

subsection \<open>The threshold warning\<close>

lemma threshold_warnings_log [simp]:
  "threshold_warnings (log_add l m st) =
     threshold_warnings st + (if (l, m) = (ERROR, TooManyConsecutiveErrors) then 1 else 0)"
  by (simp add: threshold_warnings_def)

lemma read_sensor_fails:
  assumes "read_fails ev"
  shows "\<exists>l m. m \<noteq> TooManyConsecutiveErrors \<and> read_sensor ev st = (log_add l m st, Inr None)"
proof (cases "temperature_r ev")
  case (Ret t)
  with assms show ?thesis
    by (cases "humidity_r ev")
       (auto simp: read_fails_def read_sensor_def read_sensor_except_def split: option.splits)
next
  case (Raise e)
  with assms show ?thesis
    by (auto simp: read_fails_def read_sensor_def read_sensor_except_def)
next
  case (Signal ce)
  with assms show ?thesis by (simp add: read_fails_def)
qed

lemma cycle_read_fails:
  assumes "read_fails ev" "sleep_r ev = Ret ()"
  shows "\<exists>l m. m \<noteq> TooManyConsecutiveErrors \<and> cycle cfg ev st = on_failure (log_add l m st)"
proof -
  from read_sensor_fails [OF assms(1), of st] obtain l m
    where m: "m \<noteq> TooManyConsecutiveErrors" and r: "read_sensor ev st = (log_add l m st, Inr None)"
    by blast
  have "cycle cfg ev st = on_failure (log_add l m st)"
    using r assms(2)
    by (simp add: cycle_def try_body_def seq_def sleep_def on_failure_def Let_def)
  with m show ?thesis by blast
qed

lemma failed_turn:
  assumes "read_fails ev" "sleep_r ev = Ret ()" "consecutive_errors st < 10"
  shows "snd (cycle cfg ev st) = None \<and> running (fst (cycle cfg ev st)) = running st \<and>
         consecutive_errors (fst (cycle cfg ev st)) = (consecutive_errors st + 1) mod 10 \<and>
         threshold_warnings (fst (cycle cfg ev st)) =
           threshold_warnings st + (consecutive_errors st + 1) div 10"
proof -
  from cycle_read_fails [OF assms(1,2), of cfg st] obtain l m
    where m: "m \<noteq> TooManyConsecutiveErrors" and c: "cycle cfg ev st = on_failure (log_add l m st)"
    by blast
  from assms(3) have "consecutive_errors st = 9 \<or> consecutive_errors st < 9" by arith
  then show ?thesis
    using m by (auto simp: c on_failure_def Let_def threshold_warnings_def)
qed

lemma failed_turns:
  assumes "\<forall>ev\<in>set evs. read_fails ev \<and> sleep_r ev = Ret ()"
      and "running st" "consecutive_errors st < 10"
  shows "snd (run_loop cfg evs st) = Polling \<and> running (fst (run_loop cfg evs st)) \<and>
         consecutive_errors (fst (run_loop cfg evs st)) =
           (consecutive_errors st + length evs) mod 10 \<and>
         threshold_warnings (fst (run_loop cfg evs st)) =
           threshold_warnings st + (consecutive_errors st + length evs) div 10"
  using assms
proof (induction evs arbitrary: st)
  case Nil
  then show ?case by simp
next
  case (Cons ev evs)
  obtain st1 r where c: "cycle cfg ev st = (st1, r)" by (cases "cycle cfg ev st")
  from Cons.prems have ev: "read_fails ev" "sleep_r ev = Ret ()" by simp_all
  from failed_turn [OF ev Cons.prems(3), of cfg] c
  have r: "r = None" and run: "running st1"
    and ce: "consecutive_errors st1 = (consecutive_errors st + 1) mod 10"
    and tw: "threshold_warnings st1 = threshold_warnings st + (consecutive_errors st + 1) div 10"
    using Cons.prems(2) by simp_all
  from ce have lt: "consecutive_errors st1 < 10" by simp
  from Cons.prems(1) have "\<forall>ev\<in>set evs. read_fails ev \<and> sleep_r ev = Ret ()" by simp
  from Cons.IH [OF this run lt]
  have ih: "snd (run_loop cfg evs st1) = Polling" "running (fst (run_loop cfg evs st1))"
    "consecutive_errors (fst (run_loop cfg evs st1)) = (consecutive_errors st1 + length evs) mod 10"
    "threshold_warnings (fst (run_loop cfg evs st1)) =
       threshold_warnings st1 + (consecutive_errors st1 + length evs) div 10"
    by simp_all
  have loop: "run_loop cfg (ev # evs) st = run_loop cfg evs st1"
    using Cons.prems(2) c r by simp
  have a: "((c + 1) mod 10 + n) mod 10 = (c + Suc n) mod 10" for c n :: nat
    by presburger
  have b: "(c + 1) div 10 + ((c + 1) mod 10 + n) div 10 = (c + Suc n) div 10" for c n :: nat
    by presburger
  show ?case
    unfolding loop using ih ce tw a [of "consecutive_errors st" "length evs"]
      b [of "consecutive_errors st" "length evs"] by simp
qed

text \<open>
  C2.  Ten failed read attempts in a row, counted from a turn at which the counter
  is 0 (the start of \<open>run\<close>, the turn after a reading, the turn after a warning):
  after the tenth the log holds exactly one more threshold warning, the counter is
  0 again and the loop is still polling; after each of the first nine the log holds
  no new warning and the counter is the number of failures so far.
\<close>

theorem threshold_warning_once:
  assumes "running st" and "consecutive_errors st = 0"
      and "length evs = 10" and "\<forall>ev\<in>set evs. read_fails ev \<and> sleep_r ev = Ret ()"
  shows "threshold_warnings (fst (run_loop cfg evs st)) = threshold_warnings st + 1 \<and>
         consecutive_errors (fst (run_loop cfg evs st)) = 0 \<and>
         running (fst (run_loop cfg evs st)) \<and> snd (run_loop cfg evs st) = Polling \<and>
         (\<forall>k<10. threshold_warnings (fst (run_loop cfg (take k evs) st)) = threshold_warnings st \<and>
                 consecutive_errors (fst (run_loop cfg (take k evs) st)) = k)"
proof -
  have "\<forall>k<10. threshold_warnings (fst (run_loop cfg (take k evs) st)) = threshold_warnings st \<and>
                 consecutive_errors (fst (run_loop cfg (take k evs) st)) = k"
  proof (intro allI impI)
    fix k :: nat assume k: "k < 10"
    have "\<forall>ev\<in>set (take k evs). read_fails ev \<and> sleep_r ev = Ret ()"
      using assms(4) by (auto dest: in_set_takeD)
    from failed_turns [OF this assms(1), of cfg] assms(2,3) k
    show "threshold_warnings (fst (run_loop cfg (take k evs) st)) = threshold_warnings st \<and>
          consecutive_errors (fst (run_loop cfg (take k evs) st)) = k"
      by simp
  qed
  moreover from failed_turns [OF assms(4) assms(1), of cfg] assms(2,3)
  have "threshold_warnings (fst (run_loop cfg evs st)) = threshold_warnings st + 1 \<and>
         consecutive_errors (fst (run_loop cfg evs st)) = 0 \<and>
         running (fst (run_loop cfg evs st)) \<and> snd (run_loop cfg evs st) = Polling"
    by simp
  ultimately show ?thesis by blast
qed

theorem threshold_warning_once_witness:
  "threshold_warnings (fst (run_loop default_config
       (replicate 5 (quiet_turn (Raise RuntimeError) (Ret None)) @
        replicate 5 (quiet_turn (Ret (Some 20)) (Ret None))) new_logger)) = 1 \<and>
   consecutive_errors (fst (run_loop default_config
       (replicate 5 (quiet_turn (Raise RuntimeError) (Ret None)) @
        replicate 5 (quiet_turn (Ret (Some 20)) (Ret None))) new_logger)) = 0 \<and>
   snd (run_loop default_config
       (replicate 5 (quiet_turn (Raise RuntimeError) (Ret None)) @
        replicate 5 (quiet_turn (Ret (Some 20)) (Ret None))) new_logger) = Polling"
  using threshold_warning_once [OF running_new_logger(1,2), of
       "replicate 5 (quiet_turn (Raise RuntimeError) (Ret None)) @
        replicate 5 (quiet_turn (Ret (Some 20)) (Ret None))" default_config]
  by (simp add: running_new_logger quiet_turn_def read_fails_def)

subsection \<open>What ends the loop\<close>

lemma calm_resp:
  assumes "\<not> interrupt_at r" "\<not> fatal_at r"
  obtains (Ret) v where "r = Ret v" | (Raise) e where "r = Raise e" "is_Exception e"
  using assms by (cases r) (auto simp: interrupt_at_def fatal_at_def)

lemma calm_refl [simp]: "calm st st None" "calm st (log_add l m st) None"
  by (simp_all add: calm_def)

lemma calm_trans: "calm st st1 None \<Longrightarrow> calm st1 st2 r \<Longrightarrow> calm st st2 r"
  by (simp add: calm_def)

lemma calm_seq:
  assumes "\<And>st st' r. f st = (st', r) \<Longrightarrow> calm st st' r"
      and "\<And>st st' r. g st = (st', r) \<Longrightarrow> calm st st' r"
      and "seq f g st = (st', r)"
    shows "calm st st' r"
proof (cases "f st")
  case (Pair st1 r1)
  show ?thesis
  proof (cases r1)
    case None
    with Pair assms(3) have "g st1 = (st', r)" by (simp add: seq_def)
    with assms(1)[OF Pair] None assms(2) show ?thesis by (blast intro: calm_trans)
  next
    case (Some e)
    with Pair assms(3) have "st' = st1" "r = Some e" by (simp_all add: seq_def)
    with assms(1)[OF Pair] Some show ?thesis by simp
  qed
qed

lemma calm_skip: "skip st = (st', r) \<Longrightarrow> calm st st' r"
  by (auto simp: skip_def)

lemma calm_sleep:
  "\<not> interrupt_at rs \<Longrightarrow> \<not> fatal_at rs \<Longrightarrow> sleep rs st = (st', r) \<Longrightarrow> calm st st' r"
  by (erule (1) calm_resp) (auto simp: sleep_def calm_def)

lemma calm_display:
  "\<not> interrupt_at rs \<Longrightarrow> \<not> fatal_at rs \<Longrightarrow> display_data rs d st = (st', r) \<Longrightarrow> calm st st' r"
  by (erule (1) calm_resp) (auto simp: display_data_def calm_def)

lemma calm_csv:
  "\<not> interrupt_at rs \<Longrightarrow> \<not> fatal_at rs \<Longrightarrow> save_to_csv rs d st = (st', r) \<Longrightarrow> calm st st' r"
  by (erule (1) calm_resp) (auto simp: save_to_csv_def calm_def)

lemma calm_json:
  assumes "\<not> interrupt_at rd" "\<not> fatal_at rd" "\<not> interrupt_at wr" "\<not> fatal_at wr"
      and "save_to_json rd wr d st = (st', r)"
  shows "calm st st' r"
  using assms(1,2)
proof (cases rule: calm_resp)
  case (Ret v)
  from assms(3,4) show ?thesis
    by (cases rule: calm_resp)
       (use assms(5) Ret in \<open>auto simp: save_to_json_def save_to_json_except_def calm_def
          split: option.splits json.splits\<close>)
next
  case (Raise e)
  from assms(3,4) show ?thesis
    by (cases rule: calm_resp)
       (use assms(5) Raise in \<open>auto simp: save_to_json_def save_to_json_except_def calm_def
          split: option.splits json.splits\<close>)
qed

lemma py_float_exn: "py_float s = Inl e \<Longrightarrow> e = ValueError"
  by (auto simp: py_float_def Let_def split: if_splits option.splits)

lemma field_float_exn: "field_float row k = Inl e \<Longrightarrow> is_Exception e"
  by (auto simp: field_float_def split: option.splits dest: py_float_exn)

lemma data_points_exn: "data_points rows = Inl e \<Longrightarrow> is_Exception e"
  by (induction rows) (auto split: sum.splits dest: field_float_exn)

lemma get_statistics_io_None: "snd (get_statistics_io None st) \<noteq> Inl e"
  by (auto simp: get_statistics_io_def get_statistics_except_def
      split: option.splits sum.splits dest: data_points_exn)

lemma pair_eqD: "p = (a, b) \<Longrightarrow> fst p = a \<and> snd p = b"
  by simp

lemma calm_log_statistics:
  assumes "\<not> interrupt_at rs" "\<not> fatal_at rs" "log_statistics rs st = (st', r)"
  shows "calm st st' r"
  using assms(1,2)
proof (cases rule: calm_resp)
  case (Ret v)
  have "running (fst (get_statistics_io None st)) = running st" by simp
  moreover have "snd (get_statistics_io None st) = Inl e \<Longrightarrow> False" for e
    using get_statistics_io_None by blast
  ultimately show ?thesis using Ret assms(3)
    by (auto simp: log_statistics_def get_statistics_def calm_def
        split: if_splits prod.splits sum.splits option.splits dest!: pair_eqD)
next
  case (Raise e)
  with assms(3) show ?thesis
    by (auto simp: log_statistics_def get_statistics_def get_statistics_io_def
        get_statistics_except_def calm_def split: if_splits)
qed

lemma calm_on_reading:
  assumes "\<not> interrupt_requested ev" "\<not> fatal_failure ev"
      and "on_reading cfg ev d st = (st', r)"
  shows "calm st st' r"
proof -
  have "calm (st\<lparr>readings_count := readings_count st + 1, consecutive_errors := 0\<rparr>) st' r"
    using assms(3) unfolding on_reading_def
    apply (rule calm_seq [rotated 2])
     apply (use assms(1,2) in \<open>auto simp: interrupt_requested_def fatal_failure_def
           dest: calm_display calm_skip split: if_splits\<close>)[1]
    apply (erule calm_seq [rotated 2])
     apply (use assms(1,2) in \<open>auto simp: interrupt_requested_def fatal_failure_def
           dest: calm_csv calm_skip split: if_splits\<close>)[1]
    apply (erule calm_seq [rotated 2])
     apply (use assms(1,2) in \<open>auto simp: interrupt_requested_def fatal_failure_def
           dest: calm_json calm_skip split: if_splits\<close>)[1]
    apply (use assms(1,2) in \<open>auto simp: interrupt_requested_def fatal_failure_def
           dest: calm_log_statistics\<close>)[1]
    done
  then show ?thesis by (simp add: calm_def)
qed

lemma calm_on_failure: "on_failure st = (st', r) \<Longrightarrow> calm st st' r"
  by (auto simp: on_failure_def Let_def calm_def split: if_splits)

lemma calm_read_sensor:
  assumes "\<not> interrupt_requested ev" "\<not> fatal_failure ev"
  shows "\<exists>l m d. read_sensor ev st = (log_add l m st, Inr d)"
proof -
  from assms have t: "\<not> interrupt_at (temperature_r ev)" "\<not> fatal_at (temperature_r ev)"
    and h: "\<not> interrupt_at (humidity_r ev)" "\<not> fatal_at (humidity_r ev)"
    by (simp_all add: interrupt_requested_def fatal_failure_def)
  from t show ?thesis
  proof (cases rule: calm_resp)
    case (Ret tv)
    from h show ?thesis
      by (cases rule: calm_resp)
         (use Ret in \<open>auto simp: read_sensor_def read_sensor_except_def split: option.splits\<close>)
  next
    case (Raise e)
    then show ?thesis by (auto simp: read_sensor_def read_sensor_except_def)
  qed
qed

lemma calm_try_body:
  assumes "\<not> interrupt_requested ev" "\<not> fatal_failure ev" "try_body cfg ev st = (st', r)"
  shows "calm st st' r"
proof -
  from calm_read_sensor [OF assms(1,2), of st] obtain l m d
    where rs: "read_sensor ev st = (log_add l m st, Inr d)" by blast
  have sl: "\<not> interrupt_at (sleep_r ev)" "\<not> fatal_at (sleep_r ev)"
    using assms(1,2) by (simp_all add: interrupt_requested_def fatal_failure_def)
  from rs assms(3)
  have "seq (case d of Some d \<Rightarrow> on_reading cfg ev d | None \<Rightarrow> on_failure) (sleep (sleep_r ev))
          (log_add l m st) = (st', r)"
    by (simp add: try_body_def)
  then have "calm (log_add l m st) st' r"
    by (rule calm_seq [rotated 2])
       (auto split: option.splits dest: calm_on_failure calm_on_reading [OF assms(1,2)]
          calm_sleep [OF sl])
  then show ?thesis by (simp add: calm_def)
qed

lemma calm_cycle:
  assumes "\<not> interrupt_requested ev" "\<not> fatal_failure ev"
  shows "snd (cycle cfg ev st) = None \<and> running (fst (cycle cfg ev st)) = running st"
proof (cases "try_body cfg ev st")
  case (Pair st1 r1)
  note c = calm_try_body [OF assms Pair]
  show ?thesis
  proof (cases r1)
    case None
    with Pair c show ?thesis by (simp add: cycle_def calm_def)
  next
    case (Some e)
    with c have e: "is_Exception e" "e \<noteq> KeyboardInterrupt" by (auto simp: calm_def)
    from assms have "handler_sleep_r ev = Ret ()"
      by (cases "handler_sleep_r ev")
         (auto simp: interrupt_requested_def fatal_failure_def interrupt_at_def)
    with Pair Some e c show ?thesis
      by (simp add: cycle_def sleep_def calm_def)
  qed
qed

lemma calm_run_loop:
  assumes "\<forall>ev\<in>set evs. \<not> interrupt_requested ev \<and> \<not> fatal_failure ev" "running st"
  shows "snd (run_loop cfg evs st) = Polling \<and> running (fst (run_loop cfg evs st))"
  using assms
proof (induction evs arbitrary: st)
  case Nil
  then show ?case by simp
next
  case (Cons ev evs)
  obtain st1 r where c: "cycle cfg ev st = (st1, r)" by (cases "cycle cfg ev st")
  from Cons.prems have "\<not> interrupt_requested ev" "\<not> fatal_failure ev" by simp_all
  from calm_cycle [OF this, of cfg st] c Cons.prems(2)
  have "r = None" "running st1" by simp_all
  moreover from Cons.prems(1) have "\<forall>ev\<in>set evs. \<not> interrupt_requested ev \<and> \<not> fatal_failure ev"
    by simp
  ultimately show ?case using Cons.IH [of st1] c Cons.prems(2) by simp
qed

lemma transient_is_read_failure: "transient_read_failure ev \<Longrightarrow> read_fails ev"
  by (auto simp: transient_read_failure_def read_fails_def split: resp.splits)

text \<open>
  C1.  Whatever the driver and the sinks answer, turn after turn, the loop of \<open>run\<close>
  is still polling as long as no turn has an interrupt (a signal, a
  \<open>KeyboardInterrupt\<close>) or a fatal error: so it ends only on one of the two.  A
  transient read failure is neither: the turn it happens in raises nothing and
  leaves the logger running.
\<close>

theorem loop_stops_only_on_interrupt_or_fatal:
  assumes "running st"
  shows "((\<forall>ev\<in>set evs. \<not> interrupt_requested ev \<and> \<not> fatal_failure ev) \<longrightarrow>
            snd (run cfg evs st) = Polling \<and> running (fst (run cfg evs st))) \<and>
         (transient_read_failure ev \<and> sleep_r ev = Ret () \<longrightarrow>
            snd (cycle cfg ev st) = None \<and> running (fst (cycle cfg ev st)))"
proof (intro conjI impI)
  assume "\<forall>ev\<in>set evs. \<not> interrupt_requested ev \<and> \<not> fatal_failure ev"
  then show "snd (run cfg evs st) = Polling" "running (fst (run cfg evs st))"
    using assms unfolding run_def by (simp_all add: calm_run_loop)
next
  assume t: "transient_read_failure ev \<and> sleep_r ev = Ret ()"
  then have "read_fails ev" "sleep_r ev = Ret ()" by (simp_all add: transient_is_read_failure)
  from cycle_read_fails [OF this, of cfg st] assms
  show "snd (cycle cfg ev st) = None" "running (fst (cycle cfg ev st))"
    by (auto simp: on_failure_def Let_def)
qed

theorem loop_stops_only_on_interrupt_or_fatal_witness:
  "snd (run default_config
          [quiet_turn (Raise RuntimeError) (Ret None), quiet_turn (Ret None) (Ret (Some 40)),
           quiet_turn (Ret (Some 20)) (Raise OtherException), quiet_turn (Ret (Some 20)) (Ret (Some 40))]
          new_logger) = Polling \<and>
   snd (cycle default_config (quiet_turn (Raise RuntimeError) (Signal \<lparr>exit_r = None, final_stats_r = None\<rparr>))
          new_logger) = None"
  using loop_stops_only_on_interrupt_or_fatal [OF running_new_logger(1), of
      "[quiet_turn (Raise RuntimeError) (Ret None), quiet_turn (Ret None) (Ret (Some 40)),
        quiet_turn (Ret (Some 20)) (Raise OtherException), quiet_turn (Ret (Some 20)) (Ret (Some 40))]"
      default_config "quiet_turn (Raise RuntimeError) (Signal \<lparr>exit_r = None, final_stats_r = None\<rparr>)"]
  by (simp add: quiet_turn_def interrupt_requested_def fatal_failure_def interrupt_at_def
      fatal_at_def transient_read_failure_def)

subsection \<open>Shutdown\<close>

lemma cycle_shutdown_inv:
  assumes "shutdown_inv st" "running st" "cycle cfg ev st = (st', r)"
  shows "shutdown_inv st'"
  using cycle_effect [OF assms(3)] assms(1,2)
  by (auto simp: shutdown_inv_def)

lemma run_loop_shutdown_inv:
  assumes "shutdown_inv st"
  shows "shutdown_inv (fst (run_loop cfg evs st)) \<and>
         (signals_handled (fst (run_loop cfg evs st)) = 1 \<longrightarrow> snd (run_loop cfg evs st) \<noteq> Polling)"
  using assms
proof (induction evs arbitrary: st)
  case Nil
  then show ?case by (auto simp: shutdown_inv_def)
next
  case (Cons ev evs)
  show ?case
  proof (cases "running st")
    case False
    with Cons.prems show ?thesis by simp
  next
    case True
    obtain st1 r where c: "cycle cfg ev st = (st1, r)" by (cases "cycle cfg ev st")
    from cycle_shutdown_inv [OF Cons.prems True c] have inv1: "shutdown_inv st1" .
    show ?thesis
    proof (cases r)
      case None
      with True c Cons.IH [OF inv1] show ?thesis by simp
    next
      case (Some e)
      with True c inv1 show ?thesis by simp
    qed
  qed
qed

lemma new_logger_shutdown_inv: "shutdown_inv new_logger"
  by (simp add: shutdown_inv_def new_logger_def init_csv_file_def)



lemma signal_at_sleep_handled:
  assumes "read_fails ev" "sleep_r ev = Signal ce"
  shows "signals_handled (fst (cycle cfg ev st)) = signals_handled st + 1"
proof -
  from read_sensor_fails [OF assms(1), of st] obtain l m
    where r: "read_sensor ev st = (log_add l m st, Inr None)" by blast
  have e: "\<not> is_Exception (snd (signal_handler ce s))" for s by simp
  show ?thesis
    using r assms(2) e
    by (auto simp: cycle_def try_body_def seq_def sleep_def on_failure_def Let_def
        split: prod.splits dest!: pair_eqD)
qed



subsection \<open>Failing sinks\<close>

lemma io_cases:
  assumes "r = Ret () \<or> io_failure r"
  obtains (Ret) "r = Ret ()" "\<not> io_failure r" | (Raise) e where "r = Raise e" "is_Exception e"
  using assms by (cases r) (auto simp: io_failure_def)

lemma log_statistics_Ret:
  "\<exists>ms. log_statistics (Ret ()) st = (st\<lparr>logged := logged st @ ms\<rparr>, None)"
proof (cases "readings_count st mod 10 = 0")
  case False
  then have "log_statistics (Ret ()) st = (st\<lparr>logged := logged st @ []\<rparr>, None)"
    by (simp add: log_statistics_def)
  then show ?thesis by blast
next
  case True
  obtain st1 x where g: "get_statistics_io None st = (st1, x)" by (cases "get_statistics_io None st")
  have "\<exists>ms. st1 = st\<lparr>logged := logged st @ ms\<rparr>"
  proof -
    from get_statistics_io_state [of None st] g
    consider "st1 = st" | "st1 = log_add ERROR ErrorCalculatingStatistics st" by auto
    then show ?thesis
    proof cases
      case 1
      then have "st1 = st\<lparr>logged := logged st @ []\<rparr>" by simp
      then show ?thesis by (rule exI)
    next
      case 2
      then have "st1 = st\<lparr>logged := logged st @ [(ERROR, ErrorCalculatingStatistics)]\<rparr>"
        by (simp add: log_add_def)
      then show ?thesis by (rule exI)
    qed
  qed
  then obtain ms where st1: "st1 = st\<lparr>logged := logged st @ ms\<rparr>" by blast
  from get_statistics_io_None [of st] g obtain y where x: "x = Inr y" by (cases x) auto
  show ?thesis
  proof (cases y)
    case None
    with True g x st1 have "log_statistics (Ret ()) st = (st\<lparr>logged := logged st @ ms\<rparr>, None)"
      by (simp add: log_statistics_def get_statistics_def)
    then show ?thesis by (rule exI)
  next
    case (Some s)
    with True g x have "log_statistics (Ret ()) st = (log_add INFO (StatisticsAfter s) st1, None)"
      by (simp add: log_statistics_def get_statistics_def)
    also have "log_add INFO (StatisticsAfter s) st1 =
               st\<lparr>logged := logged st @ (ms @ [(INFO, StatisticsAfter s)])\<rparr>"
      by (simp add: st1 log_add_def)
    finally show ?thesis by (rule exI)
  qed
qed



subsection \<open>Readings\<close>

lemma round_half_even_near: "\<bar>of_int (round_half_even y) - y\<bar> \<le> 1 / 2"
proof -
  have "of_int \<lfloor>y\<rfloor> \<le> y" "y < of_int \<lfloor>y\<rfloor> + 1" by linarith+
  then show ?thesis
    unfolding round_half_even_def Let_def by (simp add: abs_if) linarith
qed

lemma py_round1_near: "\<bar>py_round1 x - x\<bar> \<le> 1 / 20"
proof -
  have "\<bar>of_int (round_half_even (x * 10)) - x * 10\<bar> \<le> 1 / 2" by (rule round_half_even_near)
  then show ?thesis unfolding py_round1_def by (simp add: abs_if field_simps split: if_splits)
qed

lemma fahrenheit_near:
  "\<bar>py_round1 (t * 9 / 5 + 32) - (py_round1 t * 9 / 5 + 32)\<bar> \<le> 7 / 50"
proof -
  have a: "\<bar>py_round1 (t * 9 / 5 + 32) - (t * 9 / 5 + 32)\<bar> \<le> 1 / 20" by (rule py_round1_near)
  have b: "\<bar>py_round1 t - t\<bar> \<le> 1 / 20" by (rule py_round1_near)
  from a b show ?thesis by linarith
qed

lemma read_sensor_result:
  "(case read_sensor ev st of
      (st', Inr (Some d)) \<Rightarrow>
        (\<exists>t h. temperature_r ev = Ret (Some t) \<and> humidity_r ev = Ret (Some h) \<and>
               d = make_reading (now ev) t h)
    | (st', Inr None) \<Rightarrow>
        \<not> (\<exists>t h. temperature_r ev = Ret (Some t) \<and> humidity_r ev = Ret (Some h))
    | (st', Inl e) \<Rightarrow>
        \<not> (\<exists>t h. temperature_r ev = Ret (Some t) \<and> humidity_r ev = Ret (Some h)))"
proof (cases "temperature_r ev")
  case (Ret t)
  then show ?thesis
    by (cases "humidity_r ev")
       (auto simp: read_sensor_def read_sensor_except_def split: option.splits prod.splits)
next
  case (Raise e)
  then show ?thesis by (auto simp: read_sensor_def read_sensor_except_def)
next
  case (Signal ce)
  then show ?thesis
    by (auto simp: read_sensor_def read_sensor_except_def split: prod.splits)
qed

lemma read_sensor_reading:
  assumes "read_sensor ev st = (st', Inr (Some d))"
  shows "\<exists>t h. temperature_r ev = Ret (Some t) \<and> humidity_r ev = Ret (Some h) \<and>
               d = make_reading (now ev) t h"
  using read_sensor_result [of ev st] assms by simp

lemma read_sensor_both:
  assumes "temperature_r ev = Ret (Some t)" "humidity_r ev = Ret (Some h)"
  shows "read_sensor ev st = (log_add DEBUG SensorReadSuccessful st, Inr (Some (make_reading (now ev) t h)))"
  using assms by (simp add: read_sensor_def)

lemma make_reading_fields [simp]:
  "timestamp (make_reading dt t h) = isoformat dt"
  "temperature_c (make_reading dt t h) = py_round1 t"
  "temperature_f (make_reading dt t h) = py_round1 (t * 9 / 5 + 32)"
  "humidity_percent (make_reading dt t h) = py_round1 h"
  by (simp_all add: make_reading_def Let_def)

lemma example_read:
  "read_sensor (quiet_turn (Ret (Some t)) (Ret (Some h))) st =
     (log_add DEBUG SensorReadSuccessful st, Inr (Some (make_reading example_time t h)))"
  by (simp add: read_sensor_def quiet_turn_def)

text \<open>
  C9.  \<open>read_sensor\<close> yields a reading exactly when the driver handed over both a
  temperature and a humidity, and then the reading holds both, rounded; in every
  other case it yields no reading at all (or an exception leaves it), never a record
  with one of the two.  The DHT22 script writes a row under the same condition.
\<close>

theorem reading_is_complete:
  "(read_sensor ev st = (st', Inr (Some d)) \<longrightarrow>
      (\<exists>t h. temperature_r ev = Ret (Some t) \<and> humidity_r ev = Ret (Some h) \<and>
             temperature_c d = py_round1 t \<and> humidity_percent d = py_round1 h)) \<and>
   (temperature_r ev = Ret (Some t) \<and> humidity_r ev = Ret (Some h) \<longrightarrow>
      snd (read_sensor ev st) = Inr (Some (make_reading (now ev) t h))) \<and>
   ((\<exists>t h. temperature_r ev = Ret (Some t) \<and> humidity_r ev = Ret (Some h)) \<or>
      snd (read_sensor ev st) = Inr None \<or> (\<exists>e. snd (read_sensor ev st) = Inl e)) \<and>
   (dht22_row ts tc hm \<noteq> None) = (tc \<noteq> None \<and> hm \<noteq> None)"
proof (intro conjI impI)
  assume "read_sensor ev st = (st', Inr (Some d))"
  from read_sensor_reading [OF this]
  show "\<exists>t h. temperature_r ev = Ret (Some t) \<and> humidity_r ev = Ret (Some h) \<and>
             temperature_c d = py_round1 t \<and> humidity_percent d = py_round1 h"
    by auto
next
  assume "temperature_r ev = Ret (Some t) \<and> humidity_r ev = Ret (Some h)"
  then show "snd (read_sensor ev st) = Inr (Some (make_reading (now ev) t h))"
    by (simp add: read_sensor_both)
next
  show "(\<exists>t h. temperature_r ev = Ret (Some t) \<and> humidity_r ev = Ret (Some h)) \<or>
      snd (read_sensor ev st) = Inr None \<or> (\<exists>e. snd (read_sensor ev st) = Inl e)"
    using read_sensor_result [of ev st]
    by (auto split: prod.splits sum.splits option.splits)
next
  show "(dht22_row ts tc hm \<noteq> None) = (tc \<noteq> None \<and> hm \<noteq> None)"
    by (auto simp: dht22_row_def dht22_temperature_f_def split: option.splits)
qed

theorem reading_is_complete_witness:
  "snd (read_sensor (quiet_turn (Ret (Some 20)) (Ret (Some 40))) new_logger) =
     Inr (Some (make_reading example_time 20 40)) \<and>
   snd (read_sensor (quiet_turn (Ret (Some 20)) (Ret None)) new_logger) = Inr None \<and>
   dht22_row ''2025-01-02 03:04:05'' (Some 20) None = None"
proof -
  have "snd (read_sensor (quiet_turn (Ret (Some 20)) (Ret None)) new_logger) = Inr None"
    by (simp add: quiet_turn_def read_sensor_def)
  moreover have "snd (read_sensor (quiet_turn (Ret (Some 20)) (Ret (Some 40))) new_logger) =
     Inr (Some (make_reading example_time 20 40))"
    using reading_is_complete [of "quiet_turn (Ret (Some 20)) (Ret (Some 40))" new_logger _ _ 20 40]
    by (simp add: quiet_turn_def)
  moreover have "dht22_row ''2025-01-02 03:04:05'' (Some 20) None = None"
    using reading_is_complete [of _ _ _ _ _ _ "''2025-01-02 03:04:05''" "Some 20" None]
    by simp
  ultimately show ?thesis by simp
qed




subsection \<open>The JSON file\<close>

lemma save_to_json_appends:
  assumes "json_records st = Some items"
  shows "json_file (fst (save_to_json (Ret ()) (Ret ()) d st)) = Some (JList (items @ [reading_json d]))"
  using assms
  by (auto simp: json_records_def save_to_json_def split: option.splits json.splits)

lemma save_all_to_json_appends:
  assumes "json_records st = Some items"
  shows "json_records (save_all_to_json ds st) = Some (items @ map reading_json ds)"
  using assms
proof (induction ds arbitrary: st items)
  case Nil
  then show ?case by simp
next
  case (Cons d ds)
  from save_to_json_appends [OF Cons.prems, of d]
  have "json_records (fst (save_to_json (Ret ()) (Ret ()) d st)) = Some (items @ [reading_json d])"
    by (simp add: json_records_def)
  from Cons.IH [OF this] show ?case by simp
qed

text \<open>
  C5.  Starting with no JSON file, after the readings \<open>ds\<close> have been appended
  through \<open>save_to_json\<close>, each call reading the whole document, appending one object
  and writing the whole document back, the file holds exactly the objects of \<open>ds\<close>,
  as many as there are readings and in the order they were appended.
\<close>

theorem json_holds_the_readings_in_order:
  assumes "json_file st = None"
  shows "json_records (save_all_to_json ds st) = Some (map reading_json ds) \<and>
         (ds \<noteq> [] \<longrightarrow> json_file (save_all_to_json ds st) = Some (JList (map reading_json ds))) \<and>
         (\<forall>items. json_records (save_all_to_json ds st) = Some items \<longrightarrow> length items = length ds)"
proof -
  from assms have "json_records st = Some []" by (simp add: json_records_def)
  from save_all_to_json_appends [OF this, of ds]
  have r: "json_records (save_all_to_json ds st) = Some (map reading_json ds)" by simp
  moreover have "json_file (save_all_to_json ds st) = Some (JList (map reading_json ds))" if "ds \<noteq> []"
  proof -
    from that obtain d ds' where ds: "ds = d # ds'" by (cases ds) auto
    have "json_records (fst (save_to_json (Ret ()) (Ret ()) d st)) = Some [reading_json d]"
      using save_to_json_appends [of st "[]" d] assms by (simp add: json_records_def)
    have "json_file (save_all_to_json ds' s) \<noteq> None" if "json_file s \<noteq> None" for s
      using that
    proof (induction ds' arbitrary: s)
      case Nil then show ?case by simp
    next
      case (Cons a ds')
      have "json_file (fst (save_to_json (Ret ()) (Ret ()) a s)) \<noteq> None"
        using Cons.prems
        by (auto simp: save_to_json_def save_to_json_except_def split: option.splits json.splits)
      from Cons.IH [OF this] show ?case by simp
    qed
    moreover have "json_file (fst (save_to_json (Ret ()) (Ret ()) d st)) \<noteq> None"
      using save_to_json_appends [of st "[]" d] assms by (simp add: json_records_def)
    ultimately have "json_file (save_all_to_json ds st) \<noteq> None" by (simp add: ds)
    with r show ?thesis by (auto simp: json_records_def split: option.splits json.splits)
  qed
  ultimately show ?thesis by simp
qed

theorem json_holds_the_readings_in_order_witness:
  "json_file (save_all_to_json
      [make_reading example_time 20 40, make_reading example_time 22 41, make_reading example_time 24 45]
      new_logger) =
   Some (JList [reading_json (make_reading example_time 20 40),
                reading_json (make_reading example_time 22 41),
                reading_json (make_reading example_time 24 45)])"
  using json_holds_the_readings_in_order [of new_logger
      "[make_reading example_time 20 40, make_reading example_time 22 41, make_reading example_time 24 45]"]
  by (simp add: running_new_logger)

end
